theory Spec2Isabelle
  imports Complex_Main "HOL-Library.Multiset"
begin

section \<open>The schedule step of the task-management workflow\<close>

text \<open>
  This theory embeds the \<^verbatim>\<open>execute\<close> function of the step \<^verbatim>\<open>create-schedule\<close>
  (file \<^verbatim>\<open>src/mastra/workflows/task-management-workflow.ts\<close>, lines 213-393).

  Conventions of the embedding.
  \<^item> JavaScript numbers that carry hours are modelled as exact rationals (\<^typ>\<open>rat\<close>);
    rounding of IEEE doubles is not modelled. The one place where the source can produce
    a non-finite number, the division in the summary, has its own result type.
  \<^item> A \<^verbatim>\<open>Date\<close> object is its time value: milliseconds since the epoch in UTC, or
    \<open>None\<close> for an Invalid Date. The input \<open>startDate\<close> is the time value of
    \<^verbatim>\<open>new Date(startDate)\<close>; for a date-only string such as \<^verbatim>\<open>"2024-01-15"\<close> that
    is midnight UTC of that date.
  \<^item> The string \<^verbatim>\<open>toISOString().split("T")[0]\<close> is represented by the UTC day number
    it denotes (days since 1970-01-01), which determines the string and is determined by it.
  \<^item> The local time zone of the process is a parameter: the two readings of the
    ECMAScript abstract operation LocalTZA (offset of local time, in milliseconds, at a
    UTC time value and at a local time value).
  \<^item> The language-model call that fills \<^verbatim>\<open>suggestions\<close>, the prompt string and the
    console output are left out; what remains of the agent is whether
    \<^verbatim>\<open>mastra?.getAgent("weatherAgent")\<close> finds one.
  \<^item> Not returning is the value \<open>None\<close>; a thrown exception is \<open>Some (Inl e)\<close>; a
    returned value is \<open>Some (Inr r)\<close>.
\<close>

subsection \<open>Data\<close>

text \<open>The fields of a prioritized task that the step reads (lines 5-26).\<close>

record task =
  task_id :: string
  title :: string
  estimatedHours :: rat
  aiPriority :: rat
  reasoning :: string

text \<open>
  One entry of a day's \<^verbatim>\<open>tasks\<close> array (lines 278-283). The template string of
  \<^verbatim>\<open>notes\<close> interpolates \<^verbatim>\<open>aiPriority\<close> and \<^verbatim>\<open>reasoning\<close>; it is kept as that pair.
\<close>

record assignment =
  taskId :: string
  startTime :: string
  endTime :: string
  task_notes :: "rat \<times> string"

text \<open>One entry of \<^verbatim>\<open>schedule\<close> (lines 258-262, 295-299, 310-314).\<close>

record scheduleDay =
  date :: int
  tasks :: "assignment list"
  totalHours :: rat

text \<open>The value of a JavaScript division whose divisor may be zero.\<close>

datatype jsnum = Num rat | NaN | PosInfinity | NegInfinity

record summary =
  totalTasks :: nat
  summary_totalHours :: rat
  totalDays :: nat
  averageHoursPerDay :: jsnum

record scheduleResult =
  dailySchedule :: "scheduleDay list"
  summary :: summary

datatype error = AgentNotFound | RangeError

subsection \<open>Dates\<close>

record tzenv =
  tza_utc :: "int \<Rightarrow> int"
  tza_local :: "int \<Rightarrow> int"

type_synonym jsdate = "int option"

definition msPerDay :: int where
  "msPerDay = 86400000"

definition Day :: "int \<Rightarrow> int" where
  "Day t = t div msPerDay"

definition WeekDay :: "int \<Rightarrow> int" where
  "WeekDay t = (Day t + 4) mod 7"

definition LocalTime :: "tzenv \<Rightarrow> int \<Rightarrow> int" where
  "LocalTime tz t = t + tza_utc tz t"

definition UTC :: "tzenv \<Rightarrow> int \<Rightarrow> int" where
  "UTC tz t = t - tza_local tz t"

definition TimeClip :: "int \<Rightarrow> jsdate" where
  "TimeClip t = (if \<bar>t\<bar> > 8640000000000000 then None else Some t)"

text \<open>
  \<^verbatim>\<open>date.getDay()\<close>: the week day of the local time, NaN (here \<open>None\<close>) for an
  Invalid Date.
\<close>

definition getDay :: "tzenv \<Rightarrow> jsdate \<Rightarrow> int option" where
  "getDay tz d = (case d of None \<Rightarrow> None | Some t \<Rightarrow> Some (WeekDay (LocalTime tz t)))"

text \<open>Lines 235-238. A comparison of NaN with 0 or 6 is false.\<close>

definition isWeekend :: "tzenv \<Rightarrow> jsdate \<Rightarrow> bool" where
  "isWeekend tz d = (case getDay tz d of None \<Rightarrow> False | Some day \<Rightarrow> day = 0 \<or> day = 6)"

text \<open>
  Lines 229-233. \<^verbatim>\<open>setDate(getDate() + days)\<close> works on the local time: it keeps the
  local time of day, moves the local calendar day by \<open>days\<close>, converts back to UTC and
  clips. An Invalid Date stays invalid.
\<close>

definition addDays :: "tzenv \<Rightarrow> jsdate \<Rightarrow> int \<Rightarrow> jsdate" where
  "addDays tz d days =
     (case d of None \<Rightarrow> None
      | Some t \<Rightarrow> TimeClip (UTC tz (LocalTime tz t + days * msPerDay)))"

text \<open>
  \<^verbatim>\<open>date.toISOString().split("T")[0]\<close>: the UTC calendar date; \<^verbatim>\<open>toISOString\<close> throws a
  RangeError on an Invalid Date.
\<close>

definition toISODate :: "jsdate \<Rightarrow> error + int" where
  "toISODate d = (case d of None \<Rightarrow> Inl RangeError | Some t \<Rightarrow> Inr (Day t))"

text \<open>Week day of a calendar date given as a day number; 0 is Sunday, 6 is Saturday.\<close>

definition date_weekday :: "int \<Rightarrow> int" where
  "date_weekday n = (n + 4) mod 7"

definition date_on_weekend :: "int \<Rightarrow> bool" where
  "date_on_weekend n = (date_weekday n = 0 \<or> date_weekday n = 6)"

text \<open>A process whose local time is UTC plus a constant number of milliseconds.\<close>

definition fixed_tz :: "int \<Rightarrow> tzenv" where
  "fixed_tz c = \<lparr>tza_utc = (\<lambda>t. c), tza_local = (\<lambda>t. c)\<rparr>"

text \<open>
  US Eastern time around the start of daylight saving time on 2024-03-10 at 07:00 UTC
  (02:00 local): five hours behind UTC before it, four hours after. Local times of the
  skipped hour, 02:00 to 03:00, are read with the offset before the change.
\<close>

definition us_eastern_2024 :: tzenv where
  "us_eastern_2024 =
     \<lparr>tza_utc = (\<lambda>t. if t < 1710054000000 then - 18000000 else - 14400000),
      tza_local = (\<lambda>t. if t < 1710039600000 then - 18000000 else - 14400000)\<rparr>"

subsection \<open>Formatting of times of day\<close>

fun nat_to_string :: "nat \<Rightarrow> string" where
  "nat_to_string n =
     (if n < 10 then [''0123456789'' ! n]
      else nat_to_string (n div 10) @ [''0123456789'' ! (n mod 10)])"

declare nat_to_string.simps [simp del]

text \<open>\<^verbatim>\<open>toString()\<close> of an integral number (below \<open>10^21\<close> in magnitude).\<close>

definition int_to_string :: "int \<Rightarrow> string" where
  "int_to_string i = (if i < 0 then ''-'' @ nat_to_string (nat (- i)) else nat_to_string (nat i))"

definition padStart2 :: "string \<Rightarrow> string" where
  "padStart2 s = replicate (2 - length s) (CHR ''0'') @ s"

text \<open>\<^verbatim>\<open>x % 1\<close>: the remainder has the sign of the dividend.\<close>

definition js_rem1 :: "rat \<Rightarrow> rat" where
  "js_rem1 x = (if 0 \<le> x then x - of_int \<lfloor>x\<rfloor> else x - of_int \<lceil>x\<rceil>)"

text \<open>\<^verbatim>\<open>Math.round\<close>: to the nearest integer, a half goes up.\<close>

definition js_round :: "rat \<Rightarrow> int" where
  "js_round x = \<lfloor>x + 1 / 2\<rfloor>"

text \<open>Lines 240-244.\<close>

definition formatTime :: "rat \<Rightarrow> string" where
  "formatTime hours =
     (let h = \<lfloor>9 + hours\<rfloor>;
          m = js_round (js_rem1 hours * 60)
      in padStart2 (int_to_string h) @ '':'' @ padStart2 (int_to_string m))"

subsection \<open>The scheduling loop\<close>

text \<open>The mutable variables of lines 247-252.\<close>

record loop_state =
  schedule :: "scheduleDay list"
  currentDate :: jsdate
  currentDayHours :: rat
  currentDayTasks :: "assignment list"
  taskIndex :: nat
  totalScheduledHours :: rat

text \<open>
  The three places that push a day (lines 258-262, 295-299, 310-314) build the same
  entry from the current date, the current day's tasks and its hours.
\<close>

definition day_entry :: "loop_state \<Rightarrow> error + scheduleDay" where
  "day_entry s =
     (case toISODate (currentDate s) of
        Inl e \<Rightarrow> Inl e
      | Inr d \<Rightarrow> Inr \<lparr>date = d, tasks = currentDayTasks s, totalHours = currentDayHours s\<rparr>)"

text \<open>
  Lines 255-305, one pass through the body of the \<^verbatim>\<open>while\<close> loop; each branch of the
  source is one branch here. The template string logged at lines 289-291 calls
  \<^verbatim>\<open>toISOString\<close>, so an Invalid Date throws there.
\<close>

definition loop_body ::
  "tzenv \<Rightarrow> task list \<Rightarrow> rat \<Rightarrow> bool \<Rightarrow> loop_state \<Rightarrow> error + loop_state"
where
  "loop_body tz ts workingHoursPerDay excludeWeekends s =
     (if excludeWeekends \<and> isWeekend tz (currentDate s) then
        (if currentDayTasks s \<noteq> [] then
           (case day_entry s of
              Inl e \<Rightarrow> Inl e
            | Inr entry \<Rightarrow>
                Inr (s\<lparr>schedule := schedule s @ [entry],
                       currentDayTasks := [],
                       currentDayHours := 0,
                       currentDate := addDays tz (currentDate s) 1\<rparr>))
         else Inr (s\<lparr>currentDate := addDays tz (currentDate s) 1\<rparr>))
      else
        (let task = ts ! taskIndex s in
         if currentDayHours s + estimatedHours task \<le> workingHoursPerDay then
           (case toISODate (currentDate s) of
              Inl e \<Rightarrow> Inl e
            | Inr d \<Rightarrow>
                Inr (s\<lparr>currentDayTasks := currentDayTasks s @
                          [\<lparr>taskId = task_id task,
                            startTime = formatTime (currentDayHours s),
                            endTime = formatTime (currentDayHours s + estimatedHours task),
                            task_notes = (aiPriority task, reasoning task)\<rparr>],
                       currentDayHours := currentDayHours s + estimatedHours task,
                       totalScheduledHours := totalScheduledHours s + estimatedHours task,
                       taskIndex := taskIndex s + 1\<rparr>))
         else
           (if currentDayTasks s \<noteq> [] then
              (case day_entry s of
                 Inl e \<Rightarrow> Inl e
               | Inr entry \<Rightarrow>
                   Inr (s\<lparr>schedule := schedule s @ [entry],
                          currentDate := addDays tz (currentDate s) 1,
                          currentDayHours := 0,
                          currentDayTasks := []\<rparr>))
            else
              Inr (s\<lparr>currentDate := addDays tz (currentDate s) 1,
                     currentDayHours := 0,
                     currentDayTasks := []\<rparr>))))"

text \<open>
  Lines 254-306: the loop runs the body while a task is left. The body reads
  \<^verbatim>\<open>tasks[taskIndex]\<close> only under the loop condition, so the index is in range.
\<close>

partial_function (option) schedule_loop ::
  "tzenv \<Rightarrow> task list \<Rightarrow> rat \<Rightarrow> bool \<Rightarrow> loop_state \<Rightarrow> (error + loop_state) option"
where
  "schedule_loop tz ts workingHoursPerDay excludeWeekends s =
     (if taskIndex s < length ts then
        (case loop_body tz ts workingHoursPerDay excludeWeekends s of
           Inl e \<Rightarrow> Some (Inl e)
         | Inr s' \<Rightarrow> schedule_loop tz ts workingHoursPerDay excludeWeekends s')
      else Some (Inr s))"

declare schedule_loop.simps [code]

text \<open>Lines 247-252.\<close>

definition init_state :: "jsdate \<Rightarrow> loop_state" where
  "init_state startDate =
     \<lparr>schedule = [], currentDate = startDate, currentDayHours = 0,
      currentDayTasks = [], taskIndex = 0, totalScheduledHours = 0\<rparr>"

text \<open>Lines 308-315: the last day is added when it holds a task.\<close>

definition final_flush :: "loop_state \<Rightarrow> error + scheduleDay list" where
  "final_flush s =
     (if currentDayTasks s \<noteq> [] then
        (case day_entry s of
           Inl e \<Rightarrow> Inl e
         | Inr entry \<Rightarrow> Inr (schedule s @ [entry]))
      else Inr (schedule s))"

text \<open>
  \<^verbatim>\<open>totalScheduledHours / schedule.length\<close> (line 372): a JavaScript division does not
  throw; by zero it gives NaN or an infinity.
\<close>

definition js_div :: "rat \<Rightarrow> nat \<Rightarrow> jsnum" where
  "js_div x n =
     (if n \<noteq> 0 then Num (x / of_nat n)
      else if x = 0 then NaN
      else if 0 < x then PosInfinity else NegInfinity)"

text \<open>Lines 368-373.\<close>

definition make_summary :: "task list \<Rightarrow> rat \<Rightarrow> scheduleDay list \<Rightarrow> summary" where
  "make_summary ts hours sched =
     \<lparr>totalTasks = length ts,
      summary_totalHours = hours,
      totalDays = length sched,
      averageHoursPerDay = js_div hours (length sched)\<rparr>"

text \<open>
  Lines 213-393: the agent is looked up first, then the loop runs, the last day is
  flushed and the summary is built.
\<close>

definition createSchedule ::
  "tzenv \<Rightarrow> bool \<Rightarrow> task list \<Rightarrow> rat \<Rightarrow> jsdate \<Rightarrow> bool \<Rightarrow> (error + scheduleResult) option"
where
  "createSchedule tz agent ts workingHoursPerDay startDate excludeWeekends =
     (if \<not> agent then Some (Inl AgentNotFound)
      else
        (case schedule_loop tz ts workingHoursPerDay excludeWeekends (init_state startDate) of
           None \<Rightarrow> None
         | Some (Inl e) \<Rightarrow> Some (Inl e)
         | Some (Inr s) \<Rightarrow>
             (case final_flush s of
                Inl e \<Rightarrow> Some (Inl e)
              | Inr sched \<Rightarrow>
                  Some (Inr \<lparr>dailySchedule = sched,
                             summary = make_summary ts (totalScheduledHours s) sched\<rparr>))))"

subsection \<open>Vocabulary of the statements\<close>

text \<open>
  The entry that lines 275-283 build for a task placed at hour offset \<open>c\<close> of a day, and
  the entries of a run of tasks placed one after the other from offset \<open>c\<close>.
\<close>

definition assignment_at :: "rat \<Rightarrow> task \<Rightarrow> assignment" where
  "assignment_at c t =
     \<lparr>taskId = task_id t,
      startTime = formatTime c,
      endTime = formatTime (c + estimatedHours t),
      task_notes = (aiPriority t, reasoning t)\<rparr>"

fun assignments_from :: "rat \<Rightarrow> task list \<Rightarrow> assignment list" where
  "assignments_from c [] = []"
| "assignments_from c (t # seg) = assignment_at c t # assignments_from (c + estimatedHours t) seg"

definition hours_of :: "task list \<Rightarrow> rat" where
  "hours_of seg = sum_list (map estimatedHours seg)"

text \<open>An emitted day that holds exactly the tasks \<open>seg\<close>, in this order, back to back.\<close>

definition day_of :: "task list \<Rightarrow> scheduleDay \<Rightarrow> bool" where
  "day_of seg d \<longleftrightarrow>
     seg \<noteq> [] \<and> tasks d = assignments_from 0 seg \<and> totalHours d = hours_of seg"

text \<open>
  The loop invariant: the tasks before \<open>taskIndex\<close> are split into the runs \<open>segs\<close> of the
  days pushed so far and the run \<open>cur\<close> of the day being filled.
\<close>

definition packed :: "task list \<Rightarrow> rat \<Rightarrow> task list list \<Rightarrow> task list \<Rightarrow> loop_state \<Rightarrow> bool" where
  "packed ts cap segs cur s \<longleftrightarrow>
     taskIndex s \<le> length ts \<and>
     take (taskIndex s) ts = concat segs @ cur \<and>
     list_all2 day_of segs (schedule s) \<and>
     currentDayTasks s = assignments_from 0 cur \<and>
     currentDayHours s = hours_of cur \<and>
     totalScheduledHours s = hours_of (take (taskIndex s) ts) \<and>
     (\<forall>seg \<in> set segs. hours_of seg \<le> cap) \<and>
     (cur \<noteq> [] \<longrightarrow> hours_of cur \<le> cap)"



text \<open>The task ids of a result, day after day, in the order of the entries.\<close>

definition assigned_ids :: "scheduleDay list \<Rightarrow> string list" where
  "assigned_ids days = concat (map (\<lambda>d. map taskId (tasks d)) days)"


text \<open>
  Two invariants of the loop about dates: the dates pushed so far increase and lie
  before the current date; no pushed date is a Saturday or a Sunday and no task sits on a
  current day that is one (for a process in UTC).
\<close>

definition dated :: "loop_state \<Rightarrow> bool" where
  "dated a \<longleftrightarrow>
     sorted_wrt (<) (map date (schedule a)) \<and>
     (\<forall>t. currentDate a = Some t \<longrightarrow> (\<forall>d \<in> set (schedule a). date d < Day t))"

definition weekdays_only :: "loop_state \<Rightarrow> bool" where
  "weekdays_only a \<longleftrightarrow>
     (\<forall>d \<in> set (schedule a). \<not> date_on_weekend (date d)) \<and>
     (currentDayTasks a \<noteq> [] \<longrightarrow> \<not> isWeekend (fixed_tz 0) (currentDate a))"

text \<open>
  A measure of the work left, for a process at a constant offset \<open>c\<close> from UTC: the
  tasks not yet placed, whether the next task fits the current day, and the days until
  the current date is no weekend day to be skipped.
\<close>

definition days_to_weekday :: "int \<Rightarrow> bool \<Rightarrow> jsdate \<Rightarrow> nat" where
  "days_to_weekday c ex d =
     (case d of
        None \<Rightarrow> 0
      | Some t \<Rightarrow>
          if \<not> ex then 0
          else if WeekDay (t + c) = 6 then 2
          else if WeekDay (t + c) = 0 then 1
          else 0)"

definition fits_today :: "task list \<Rightarrow> rat \<Rightarrow> loop_state \<Rightarrow> bool" where
  "fits_today ts cap s \<longleftrightarrow> currentDayHours s + estimatedHours (ts ! taskIndex s) \<le> cap"

definition loop_measure :: "int \<Rightarrow> task list \<Rightarrow> rat \<Rightarrow> bool \<Rightarrow> loop_state \<Rightarrow> nat" where
  "loop_measure c ts cap ex s =
     (length ts - taskIndex s) * 6 + (if fits_today ts cap s then 0 else 3) +
     days_to_weekday c ex (currentDate s)"


text \<open>The result for an empty task list; the average is \<open>0 / 0\<close>.\<close>

definition empty_result :: scheduleResult where
  "empty_result =
     \<lparr>dailySchedule = [],
      summary = \<lparr>totalTasks = 0, summary_totalHours = 0, totalDays = 0,
                 averageHoursPerDay = NaN\<rparr>\<rparr>"

text \<open>A task with the given id and hours, for the examples.\<close>

definition mk_task :: "string \<Rightarrow> rat \<Rightarrow> task" where
  "mk_task i h = \<lparr>task_id = i, title = i, estimatedHours = h, aiPriority = 5, reasoning = []\<rparr>"

subsection \<open>A sample run\<close>

text \<open>
  Three tasks of 4, 2 and 6 hours, eight working hours a day, starting on Monday
  2024-01-15 (time value 1705276800000, day number 19737) in a process running in UTC.
\<close>

definition sample_tasks :: "task list" where
  "sample_tasks = [mk_task ''a'' 4, mk_task ''b'' 2, mk_task ''c'' 6]"

definition sample_day1 :: scheduleDay where
  "sample_day1 =
     \<lparr>date = 19737,
      tasks = [\<lparr>taskId = ''a'', startTime = ''09:00'', endTime = ''13:00'', task_notes = (5, [])\<rparr>,
               \<lparr>taskId = ''b'', startTime = ''13:00'', endTime = ''15:00'', task_notes = (5, [])\<rparr>],
      totalHours = 6\<rparr>"

definition sample_day2 :: scheduleDay where
  "sample_day2 =
     \<lparr>date = 19738,
      tasks = [\<lparr>taskId = ''c'', startTime = ''09:00'', endTime = ''15:00'', task_notes = (5, [])\<rparr>],
      totalHours = 6\<rparr>"

definition sample_result :: scheduleResult where
  "sample_result =
     \<lparr>dailySchedule = [sample_day1, sample_day2],
      summary = \<lparr>totalTasks = 3, summary_totalHours = 12, totalDays = 2,
                 averageHoursPerDay = Num 6\<rparr>\<rparr>"

section \<open>Properties of the loop\<close>

subsection \<open>Two induction rules for the loop\<close>

text \<open>
  A property that holds at the start and is kept by every pass through the body holds
  when the loop returns, and then no task is left.
\<close>

lemma schedule_loop_rule:
  assumes run: "schedule_loop tz ts cap ex s = Some (Inr s')"
    and init: "I s"
    and step: "\<And>a b. I a \<Longrightarrow> taskIndex a < length ts \<Longrightarrow> loop_body tz ts cap ex a = Inr b \<Longrightarrow> I b"
  shows "I s' \<and> length ts \<le> taskIndex s'"
proof -
  define P where "P = (\<lambda>tz0 ts0 cap0 ex0 s0 (y :: error + loop_state).
      tz0 = tz \<and> ts0 = ts \<and> cap0 = cap \<and> ex0 = ex \<and> I s0 \<longrightarrow>
        (\<forall>r. y = Inr r \<longrightarrow> I r \<and> length ts \<le> taskIndex r))"
  have "P tz ts cap ex s (Inr s')"
  proof (rule schedule_loop.raw_induct [where P = P, OF _ run])
    fix f tz0 ts0 cap0 ex0 s0 y
    assume IH: "\<And>tz0 ts0 cap0 ex0 s0 y. f tz0 ts0 cap0 ex0 s0 = Some y \<Longrightarrow> P tz0 ts0 cap0 ex0 s0 y"
      and body: "(if taskIndex s0 < length ts0
                  then case loop_body tz0 ts0 cap0 ex0 s0 of
                         Inl e \<Rightarrow> Some (Inl e)
                       | Inr s' \<Rightarrow> f tz0 ts0 cap0 ex0 s'
                  else Some (Inr s0)) = Some y"
    show "P tz0 ts0 cap0 ex0 s0 y"
      unfolding P_def
    proof (intro impI allI)
      fix r
      assume pre: "tz0 = tz \<and> ts0 = ts \<and> cap0 = cap \<and> ex0 = ex \<and> I s0" and y: "y = Inr r"
      show "I r \<and> length ts \<le> taskIndex r"
      proof (cases "taskIndex s0 < length ts")
        case False
        with body pre y have "r = s0" by simp
        with False pre show ?thesis by simp
      next
        case True
        show ?thesis
        proof (cases "loop_body tz ts cap ex s0")
          case (Inl e)
          with body pre y True show ?thesis by simp
        next
          case (Inr b)
          with body pre True have "f tz ts cap ex b = Some y" by simp
          then have "P tz ts cap ex b y" by (rule IH)
          moreover have "I b" using step [OF _ True Inr] pre by simp
          ultimately show ?thesis using y by (simp add: P_def)
        qed
      qed
    qed
  qed
  with init show ?thesis by (simp add: P_def)
qed

text \<open>
  When a property that is kept by the body implies that a task is left, the loop cannot
  leave by its condition: whatever it yields is an exception thrown by the body in a
  state with the property.
\<close>

lemma schedule_loop_stuck:
  assumes run: "schedule_loop tz ts cap ex s = Some y"
    and init: "I s"
    and live: "\<And>a. I a \<Longrightarrow> taskIndex a < length ts"
    and step: "\<And>a b. I a \<Longrightarrow> loop_body tz ts cap ex a = Inr b \<Longrightarrow> I b"
  shows "\<exists>a e. I a \<and> loop_body tz ts cap ex a = Inl e \<and> y = Inl e"
proof -
  define P where "P = (\<lambda>tz0 ts0 cap0 ex0 s0 (y :: error + loop_state).
      tz0 = tz \<and> ts0 = ts \<and> cap0 = cap \<and> ex0 = ex \<and> I s0 \<longrightarrow>
        (\<exists>a e. I a \<and> loop_body tz ts cap ex a = Inl e \<and> y = Inl e))"
  have "P tz ts cap ex s y"
  proof (rule schedule_loop.raw_induct [where P = P, OF _ run])
    fix f tz0 ts0 cap0 ex0 s0 y
    assume IH: "\<And>tz0 ts0 cap0 ex0 s0 y. f tz0 ts0 cap0 ex0 s0 = Some y \<Longrightarrow> P tz0 ts0 cap0 ex0 s0 y"
      and body: "(if taskIndex s0 < length ts0
                  then case loop_body tz0 ts0 cap0 ex0 s0 of
                         Inl e \<Rightarrow> Some (Inl e)
                       | Inr s' \<Rightarrow> f tz0 ts0 cap0 ex0 s'
                  else Some (Inr s0)) = Some y"
    show "P tz0 ts0 cap0 ex0 s0 y"
      unfolding P_def
    proof (intro impI)
      assume pre: "tz0 = tz \<and> ts0 = ts \<and> cap0 = cap \<and> ex0 = ex \<and> I s0"
      then have lt: "taskIndex s0 < length ts" using live by simp
      show "\<exists>a e. I a \<and> loop_body tz ts cap ex a = Inl e \<and> y = Inl e"
      proof (cases "loop_body tz ts cap ex s0")
        case (Inl e)
        with body pre lt have "y = Inl e" by auto
        with Inl pre show ?thesis by blast
      next
        case (Inr b)
        with body pre lt have "f tz ts cap ex b = Some y" by simp
        then have "P tz ts cap ex b y" by (rule IH)
        moreover have "I b" using step [OF _ Inr] pre by simp
        ultimately show ?thesis by (simp add: P_def)
      qed
    qed
  qed
  with init show ?thesis by (simp add: P_def)
qed

subsection \<open>The invariant of the packing\<close>

lemma hours_of_simps [simp]:
  "hours_of [] = 0"
  "hours_of (t # seg) = estimatedHours t + hours_of seg"
  "hours_of (seg @ seg') = hours_of seg + hours_of seg'"
  by (simp_all add: hours_of_def)

lemma assignments_from_snoc:
  "assignments_from c (seg @ [t]) = assignments_from c seg @ [assignment_at (c + hours_of seg) t]"
  by (induction seg arbitrary: c) (simp_all add: add.assoc)

lemma assignments_from_Nil_iff [simp]: "assignments_from c seg = [] \<longleftrightarrow> seg = []"
  by (cases seg) simp_all

lemma length_assignments_from [simp]: "length (assignments_from c seg) = length seg"
  by (induction seg arbitrary: c) simp_all


lemma map_taskId_assignments_from [simp]:
  "map taskId (assignments_from c seg) = map task_id seg"
  by (induction seg arbitrary: c) (simp_all add: assignment_at_def)

lemma packed_init: "packed ts cap [] [] (init_state start)"
  by (simp add: packed_def init_state_def)

lemma packed_cur_empty:
  "packed ts cap segs cur s \<Longrightarrow> currentDayTasks s = [] \<longleftrightarrow> cur = []"
  by (auto simp: packed_def)

lemma packed_flush:
  assumes p: "packed ts cap segs cur s" and ne: "currentDayTasks s \<noteq> []"
    and e: "day_entry s = Inr entry"
    and b: "schedule b = schedule s @ [entry]" "currentDayTasks b = []" "currentDayHours b = 0"
      "taskIndex b = taskIndex s" "totalScheduledHours b = totalScheduledHours s"
  shows "packed ts cap (segs @ [cur]) [] b"
proof -
  from ne have cur: "cur \<noteq> []" by (simp add: packed_cur_empty [OF p])
  from e have entry: "tasks entry = currentDayTasks s" "totalHours entry = currentDayHours s"
    by (auto simp: day_entry_def split: sum.splits)
  with p cur have "day_of cur entry" by (simp add: day_of_def packed_def)
  with p cur b show ?thesis
    by (simp add: packed_def list_all2_appendI)
qed

lemma packed_step:
  assumes p: "packed ts cap segs cur a" and lt: "taskIndex a < length ts"
    and b: "loop_body tz ts cap ex a = Inr b"
  shows "\<exists>segs' cur'. packed ts cap segs' cur' b"
proof (cases "ex \<and> isWeekend tz (currentDate a)")
  case True
  show ?thesis
  proof (cases "currentDayTasks a = []")
    case True
    with \<open>ex \<and> isWeekend tz (currentDate a)\<close> b
    have "b = a\<lparr>currentDate := addDays tz (currentDate a) 1\<rparr>"
      by (simp add: loop_body_def)
    with p have "packed ts cap segs cur b" by (simp add: packed_def)
    then show ?thesis by blast
  next
    case False
    with True b obtain entry where e: "day_entry a = Inr entry"
      and b': "b = a\<lparr>schedule := schedule a @ [entry], currentDayTasks := [],
                     currentDayHours := 0, currentDate := addDays tz (currentDate a) 1\<rparr>"
      by (auto simp: loop_body_def split: sum.splits)
    have "packed ts cap (segs @ [cur]) [] b"
      by (rule packed_flush [OF p False e]) (simp_all add: b')
    then show ?thesis by blast
  qed
next
  case nw: False
  let ?t = "ts ! taskIndex a"
  show ?thesis
  proof (cases "currentDayHours a + estimatedHours ?t \<le> cap")
    case True
    with nw b have b': "b = a\<lparr>currentDayTasks := currentDayTasks a @
                          [\<lparr>taskId = task_id ?t,
                            startTime = formatTime (currentDayHours a),
                            endTime = formatTime (currentDayHours a + estimatedHours ?t),
                            task_notes = (aiPriority ?t, reasoning ?t)\<rparr>],
                       currentDayHours := currentDayHours a + estimatedHours ?t,
                       totalScheduledHours := totalScheduledHours a + estimatedHours ?t,
                       taskIndex := taskIndex a + 1\<rparr>"
      by (auto simp: loop_body_def Let_def split: sum.splits)
    have tk: "take (Suc (taskIndex a)) ts = take (taskIndex a) ts @ [?t]"
      using lt by (simp add: take_Suc_conv_app_nth)
    from p True lt have "packed ts cap segs (cur @ [?t]) b"
      unfolding b' by (simp add: packed_def tk assignments_from_snoc assignment_at_def)
    then show ?thesis by blast
  next
    case nf: False
    show ?thesis
    proof (cases "currentDayTasks a = []")
      case True
      with nw nf b have b': "b = a\<lparr>currentDate := addDays tz (currentDate a) 1,
                     currentDayHours := 0, currentDayTasks := []\<rparr>"
        by (auto simp: loop_body_def Let_def)
      from True have "cur = []" by (simp add: packed_cur_empty [OF p])
      with p have "packed ts cap segs cur b" unfolding b' by (simp add: packed_def)
      then show ?thesis by blast
    next
      case False
      with nw nf b obtain entry where e: "day_entry a = Inr entry"
        and b': "b = a\<lparr>schedule := schedule a @ [entry], 
                       currentDate := addDays tz (currentDate a) 1,
                       currentDayHours := 0, currentDayTasks := []\<rparr>"
        by (auto simp: loop_body_def Let_def split: sum.splits)
      have "packed ts cap (segs @ [cur]) [] b"
        by (rule packed_flush [OF p False e]) (simp_all add: b')
      then show ?thesis by blast
    qed
  qed
qed

subsection \<open>What a returned result looks like\<close>

lemma final_flush_packed:
  assumes p: "packed ts cap segs cur s" and fin: "length ts \<le> taskIndex s"
    and f: "final_flush s = Inr sched"
  shows "\<exists>segs'. concat segs' = ts \<and> list_all2 day_of segs' sched \<and>
           (\<forall>seg \<in> set segs'. hours_of seg \<le> cap) \<and> totalScheduledHours s = hours_of ts"
proof -
  from p fin have all: "take (taskIndex s) ts = ts" by (simp add: packed_def)
  with p have split: "concat segs @ cur = ts" and tot: "totalScheduledHours s = hours_of ts"
    by (simp_all add: packed_def)
  from p have l: "list_all2 day_of segs (schedule s)" and c: "\<forall>seg \<in> set segs. hours_of seg \<le> cap"
    by (simp_all add: packed_def)
  show ?thesis
  proof (cases "currentDayTasks s = []")
    case True
    then have "cur = []" by (simp add: packed_cur_empty [OF p])
    moreover from True f have "sched = schedule s" by (simp add: final_flush_def)
    ultimately have "concat segs = ts" "list_all2 day_of segs sched" using split l by simp_all
    with c tot show ?thesis by blast
  next
    case False
    with f obtain entry where e: "day_entry s = Inr entry" and s: "sched = schedule s @ [entry]"
      by (auto simp: final_flush_def split: sum.splits)
    define b where "b = s\<lparr>schedule := sched, currentDayTasks := [], currentDayHours := 0\<rparr>"
    have "packed ts cap (segs @ [cur]) [] b"
      by (rule packed_flush [OF p False e]) (simp_all add: b_def s)
    then have "list_all2 day_of (segs @ [cur]) sched" "\<forall>seg \<in> set (segs @ [cur]). hours_of seg \<le> cap"
      by (simp_all add: packed_def b_def)
    moreover have "concat (segs @ [cur]) = ts" using split by simp
    ultimately show ?thesis using tot by blast
  qed
qed

lemma createSchedule_Inr:
  assumes run: "createSchedule tz agent ts cap start ex = Some (Inr r)"
  obtains s sched where
    "schedule_loop tz ts cap ex (init_state start) = Some (Inr s)"
    "final_flush s = Inr sched"
    "r = \<lparr>dailySchedule = sched, summary = make_summary ts (totalScheduledHours s) sched\<rparr>"
proof -
  from run have ag: "agent" by (simp add: createSchedule_def split: if_splits)
  show ?thesis
  proof (cases "schedule_loop tz ts cap ex (init_state start)")
    case None
    with run ag show ?thesis by (simp add: createSchedule_def)
  next
    case (Some y)
    show ?thesis
    proof (cases y)
      case (Inl e)
      with run ag Some show ?thesis by (simp add: createSchedule_def)
    next
      case (Inr s)
      show ?thesis
      proof (cases "final_flush s")
        case (Inl e)
        with run ag Some Inr show ?thesis by (simp add: createSchedule_def)
      next
        case fl: (Inr sched)
        with run ag Some Inr
        have "r = \<lparr>dailySchedule = sched, summary = make_summary ts (totalScheduledHours s) sched\<rparr>"
          by (simp add: createSchedule_def)
        with Some Inr fl that show ?thesis by blast
      qed
    qed
  qed
qed

lemma createSchedule_packed:
  assumes run: "createSchedule tz agent ts cap start ex = Some (Inr r)"
  shows "\<exists>segs. concat segs = ts \<and> list_all2 day_of segs (dailySchedule r) \<and>
           (\<forall>seg \<in> set segs. hours_of seg \<le> cap) \<and>
           summary r = make_summary ts (hours_of ts) (dailySchedule r)"
proof -
  from run obtain s sched where
    loop: "schedule_loop tz ts cap ex (init_state start) = Some (Inr s)"
    and fl: "final_flush s = Inr sched"
    and r: "r = \<lparr>dailySchedule = sched, summary = make_summary ts (totalScheduledHours s) sched\<rparr>"
    by (rule createSchedule_Inr)
  have "(\<exists>segs cur. packed ts cap segs cur s) \<and> length ts \<le> taskIndex s"
  proof (rule schedule_loop_rule [OF loop])
    show "\<exists>segs cur. packed ts cap segs cur (init_state start)"
      using packed_init by blast
  next
    fix a b
    assume "\<exists>segs cur. packed ts cap segs cur a" "taskIndex a < length ts"
      "loop_body tz ts cap ex a = Inr b"
    then show "\<exists>segs cur. packed ts cap segs cur b"
      using packed_step by blast
  qed
  then obtain segs cur where p: "packed ts cap segs cur s" and fin: "length ts \<le> taskIndex s"
    by blast
  from final_flush_packed [OF p fin fl] obtain segs' where
    "concat segs' = ts" "list_all2 day_of segs' sched" "\<forall>seg \<in> set segs'. hours_of seg \<le> cap"
    "totalScheduledHours s = hours_of ts" by blast
  with r show ?thesis by (intro exI [of _ segs']) simp
qed

lemma day_of_member:
  assumes "list_all2 day_of segs days" and "d \<in> set days"
  shows "\<exists>seg \<in> set segs. day_of seg d"
proof -
  from assms(2) obtain i where i: "i < length days" "d = days ! i"
    by (auto simp: in_set_conv_nth)
  with assms(1) have "day_of (segs ! i) d" "segs ! i \<in> set segs"
    by (simp_all add: list_all2_conv_all_nth)
  then show ?thesis by blast
qed

lemma assigned_ids_day_of:
  "list_all2 day_of segs days \<Longrightarrow> assigned_ids days = map task_id (concat segs)"
  by (induction rule: list_all2_induct) (simp_all add: assigned_ids_def day_of_def)

lemma total_hours_day_of:
  "list_all2 day_of segs days \<Longrightarrow> sum_list (map totalHours days) = hours_of (concat segs)"
  by (induction rule: list_all2_induct) (simp_all add: day_of_def)



lemma assigned_ids_result:
  assumes "createSchedule tz agent ts cap start ex = Some (Inr r)"
  shows "assigned_ids (dailySchedule r) = map task_id ts"
proof -
  from createSchedule_packed [OF assms] obtain segs where
    "concat segs = ts" "list_all2 day_of segs (dailySchedule r)" by blast
  with assigned_ids_day_of [of segs "dailySchedule r"] show ?thesis by simp
qed

lemma day_run:
  assumes "createSchedule tz agent ts cap start ex = Some (Inr r)" and "d \<in> set (dailySchedule r)"
  shows "\<exists>pre seg post. ts = pre @ seg @ post \<and> day_of seg d"
proof -
  from createSchedule_packed [OF assms(1)] obtain segs where
    c: "concat segs = ts" and l: "list_all2 day_of segs (dailySchedule r)" by blast
  from day_of_member [OF l assms(2)] obtain seg where seg: "seg \<in> set segs" "day_of seg d" by blast
  then obtain xs ys where "segs = xs @ seg # ys" by (auto simp: in_set_conv_decomp)
  with c have "ts = concat xs @ seg @ concat ys" by auto
  with seg show ?thesis by blast
qed



subsection \<open>The summary and the emitted days\<close>

lemma no_tasks_result:
  "createSchedule tz True [] cap start ex = Some (Inr empty_result)"
  by (simp add: createSchedule_def schedule_loop.simps init_state_def final_flush_def
      make_summary_def js_div_def empty_result_def)

lemma emitted_days_nonempty:
  assumes "createSchedule tz agent ts cap start ex = Some (Inr r)" and "d \<in> set (dailySchedule r)"
  shows "tasks d \<noteq> []"
proof -
  from day_run [OF assms] obtain seg where "day_of seg d" by blast
  then show ?thesis by (simp add: day_of_def)
qed

lemma summary_consistency:
  assumes "createSchedule tz agent ts cap start ex = Some (Inr r)"
  shows "summary_totalHours (summary r) = sum_list (map totalHours (dailySchedule r))"
    and "summary_totalHours (summary r) = sum_list (map estimatedHours ts)"
    and "totalDays (summary r) = length (dailySchedule r)"
    and "totalTasks (summary r) = length ts"
    and "averageHoursPerDay (summary r) =
           js_div (summary_totalHours (summary r)) (totalDays (summary r))"
    and "ts \<noteq> [] \<Longrightarrow> dailySchedule r \<noteq> []"
    and "dailySchedule r \<noteq> [] \<Longrightarrow>
           averageHoursPerDay (summary r) =
             Num (summary_totalHours (summary r) / of_nat (totalDays (summary r)))"
proof -
  from createSchedule_packed [OF assms] obtain segs where
    c: "concat segs = ts" and l: "list_all2 day_of segs (dailySchedule r)"
    and s: "summary r = make_summary ts (hours_of ts) (dailySchedule r)" by blast
  from total_hours_day_of [OF l] c s
  show "summary_totalHours (summary r) = sum_list (map totalHours (dailySchedule r))"
    by (simp add: make_summary_def)
  from s show "summary_totalHours (summary r) = sum_list (map estimatedHours ts)"
    by (simp add: make_summary_def hours_of_def)
  from s show "totalDays (summary r) = length (dailySchedule r)"
    by (simp add: make_summary_def)
  from s show "totalTasks (summary r) = length ts"
    by (simp add: make_summary_def)
  from s show "averageHoursPerDay (summary r) =
           js_div (summary_totalHours (summary r)) (totalDays (summary r))"
    by (simp add: make_summary_def)
  from l have "length segs = length (dailySchedule r)" by (rule list_all2_lengthD)
  with c show "dailySchedule r \<noteq> []" if "ts \<noteq> []" using that by auto
  from s show "averageHoursPerDay (summary r) =
             Num (summary_totalHours (summary r) / of_nat (totalDays (summary r)))"
    if "dailySchedule r \<noteq> []" using that by (simp add: make_summary_def js_div_def)
qed

subsection \<open>A task that is longer than a day\<close>


lemma first_oversized_diverges:
  assumes ne: "ts \<noteq> []" and big: "cap < estimatedHours (ts ! 0)"
  shows "createSchedule tz True ts cap start ex = None"
proof -
  define I where "I = (\<lambda>a :: loop_state. taskIndex a = 0 \<and> currentDayTasks a = [] \<and> currentDayHours a = 0)"
  have body: "\<exists>b. loop_body tz ts cap ex a = Inr b \<and> I b" if "I a" for a
    using that big by (simp add: loop_body_def Let_def I_def)
  have "schedule_loop tz ts cap ex (init_state start) = None"
  proof (cases "schedule_loop tz ts cap ex (init_state start)")
    case None
    then show ?thesis .
  next
    case (Some y)
    have "\<exists>a e. I a \<and> loop_body tz ts cap ex a = Inl e \<and> y = Inl e"
    proof (rule schedule_loop_stuck [OF Some])
      show "I (init_state start)" by (simp add: I_def init_state_def)
    next
      fix a assume "I a"
      with ne show "taskIndex a < length ts" by (simp add: I_def)
    next
      fix a b
      assume "I a" "loop_body tz ts cap ex a = Inr b"
      with body [of a] show "I b" by auto
    qed
    with body have False by force
    then show ?thesis ..
  qed
  then show ?thesis by (simp add: createSchedule_def)
qed

subsection \<open>Dates when the local offset from UTC is constant\<close>

lemma addDays_fixed_tz:
  "addDays (fixed_tz c) (Some t) 1 = Some t' \<Longrightarrow> t' = t + msPerDay"
  by (simp add: addDays_def fixed_tz_def LocalTime_def UTC_def TimeClip_def split: if_splits)

lemma Day_next: "Day (t + msPerDay) = Day t + 1"
  by (simp add: Day_def msPerDay_def)

lemma addDays_fixed_tz_Day:
  assumes "addDays (fixed_tz c) d 1 = Some t'" and "\<forall>t. d = Some t \<longrightarrow> x < Day t"
  shows "x < Day t'"
proof (cases d)
  case None
  with assms(1) show ?thesis by (simp add: addDays_def)
next
  case (Some t)
  with assms(1) have "t' = t + msPerDay" by (simp add: addDays_fixed_tz)
  with assms(2) Some show ?thesis by (simp add: Day_next)
qed

lemma dated_push:
  assumes a: "dated a" and e: "day_entry a = Inr entry"
    and b: "schedule b = schedule a @ [entry]" "currentDate b = addDays (fixed_tz c) (currentDate a) 1"
  shows "dated b"
proof -
  from e obtain t where t: "currentDate a = Some t" and d: "date entry = Day t"
    by (auto simp: day_entry_def toISODate_def split: option.splits)
  from a t have before: "\<forall>d \<in> set (schedule a). date d < Day t" by (simp add: dated_def)
  with a d have "sorted_wrt (<) (map date (schedule b))"
    by (simp add: dated_def b sorted_wrt_append)
  moreover have "\<forall>x \<in> set (schedule b). date x < Day t'" if "currentDate b = Some t'" for t'
  proof -
    from that b t have "t' = t + msPerDay" by (simp add: addDays_fixed_tz)
    with before d show ?thesis by (auto simp: b Day_next)
  qed
  ultimately show ?thesis by (simp add: dated_def)
qed

lemma dated_skip:
  assumes a: "dated a"
    and b: "schedule b = schedule a" "currentDate b = addDays (fixed_tz c) (currentDate a) 1"
  shows "dated b"
proof -
  have "\<forall>x \<in> set (schedule a). date x < Day t'" if t': "currentDate b = Some t'" for t'
  proof
    fix x assume x: "x \<in> set (schedule a)"
    from t' b have "addDays (fixed_tz c) (currentDate a) 1 = Some t'" by simp
    then show "date x < Day t'"
      by (rule addDays_fixed_tz_Day) (use a x in \<open>auto simp: dated_def\<close>)
  qed
  with a b show ?thesis by (simp add: dated_def)
qed

lemma dated_step:
  assumes a: "dated a" and b: "loop_body (fixed_tz c) ts cap ex a = Inr b"
  shows "dated b"
proof (cases "ex \<and> isWeekend (fixed_tz c) (currentDate a)")
  case True
  show ?thesis
  proof (cases "currentDayTasks a = []")
    case True
    with \<open>ex \<and> isWeekend (fixed_tz c) (currentDate a)\<close> b
    have "b = a\<lparr>currentDate := addDays (fixed_tz c) (currentDate a) 1\<rparr>"
      by (simp add: loop_body_def)
    then show ?thesis by (intro dated_skip [OF a]) simp_all
  next
    case False
    with True b obtain entry where e: "day_entry a = Inr entry"
      and b': "b = a\<lparr>schedule := schedule a @ [entry], currentDayTasks := [],
                     currentDayHours := 0, currentDate := addDays (fixed_tz c) (currentDate a) 1\<rparr>"
      by (auto simp: loop_body_def split: sum.splits)
    show ?thesis by (rule dated_push [OF a e]) (simp_all add: b')
  qed
next
  case nw: False
  let ?t = "ts ! taskIndex a"
  show ?thesis
  proof (cases "currentDayHours a + estimatedHours ?t \<le> cap")
    case True
    with nw b have "schedule b = schedule a" "currentDate b = currentDate a"
      by (auto simp: loop_body_def Let_def split: sum.splits)
    with a show ?thesis by (simp add: dated_def)
  next
    case nf: False
    show ?thesis
    proof (cases "currentDayTasks a = []")
      case True
      with nw nf b have b': "b = a\<lparr>currentDate := addDays (fixed_tz c) (currentDate a) 1,
                     currentDayHours := 0, currentDayTasks := []\<rparr>"
        by (auto simp: loop_body_def Let_def)
      show ?thesis by (rule dated_skip [OF a]) (simp_all add: b')
    next
      case False
      with nw nf b obtain entry where e: "day_entry a = Inr entry"
        and b': "b = a\<lparr>schedule := schedule a @ [entry],
                       currentDate := addDays (fixed_tz c) (currentDate a) 1,
                       currentDayHours := 0, currentDayTasks := []\<rparr>"
        by (auto simp: loop_body_def Let_def split: sum.splits)
      show ?thesis by (rule dated_push [OF a e]) (simp_all add: b')
    qed
  qed
qed

lemma dates_increasing_fixed_tz:
  assumes run: "createSchedule (fixed_tz c) agent ts cap start ex = Some (Inr r)"
  shows "sorted_wrt (<) (map date (dailySchedule r))"
proof -
  from run obtain s sched where
    loop: "schedule_loop (fixed_tz c) ts cap ex (init_state start) = Some (Inr s)"
    and fl: "final_flush s = Inr sched"
    and r: "r = \<lparr>dailySchedule = sched, summary = make_summary ts (totalScheduledHours s) sched\<rparr>"
    by (rule createSchedule_Inr)
  have "dated s \<and> length ts \<le> taskIndex s"
  proof (rule schedule_loop_rule [OF loop])
    show "dated (init_state start)" by (simp add: dated_def init_state_def)
  next
    fix a b
    assume "dated a" "loop_body (fixed_tz c) ts cap ex a = Inr b"
    then show "dated b" by (rule dated_step)
  qed
  then have s: "dated s" ..
  have "sorted_wrt (<) (map date sched)"
  proof (cases "currentDayTasks s = []")
    case True
    with fl s show ?thesis by (simp add: final_flush_def dated_def)
  next
    case False
    with fl obtain entry where e: "day_entry s = Inr entry" and sc: "sched = schedule s @ [entry]"
      by (auto simp: final_flush_def split: sum.splits)
    from e obtain t where "currentDate s = Some t" "date entry = Day t"
      by (auto simp: day_entry_def toISODate_def split: option.splits)
    with s show ?thesis by (simp add: sc dated_def sorted_wrt_append)
  qed
  with r show ?thesis by simp
qed

lemma isWeekend_utc: "isWeekend (fixed_tz 0) (Some t) = date_on_weekend (Day t)"
  by (simp add: isWeekend_def getDay_def WeekDay_def LocalTime_def fixed_tz_def
      date_on_weekend_def date_weekday_def)

lemma day_entry_weekday:
  assumes "day_entry a = Inr entry" and "\<not> isWeekend (fixed_tz 0) (currentDate a)"
  shows "\<not> date_on_weekend (date entry)"
  using assms by (auto simp: day_entry_def toISODate_def isWeekend_utc split: option.splits)

lemma weekdays_only_step:
  assumes a: "weekdays_only a" and b: "loop_body (fixed_tz 0) ts cap True a = Inr b"
  shows "weekdays_only b"
proof (cases "isWeekend (fixed_tz 0) (currentDate a)")
  case True
  with a have "currentDayTasks a = []" by (auto simp: weekdays_only_def)
  with True b have "b = a\<lparr>currentDate := addDays (fixed_tz 0) (currentDate a) 1\<rparr>"
    by (simp add: loop_body_def)
  with a \<open>currentDayTasks a = []\<close> show ?thesis by (simp add: weekdays_only_def)
next
  case nw: False
  let ?t = "ts ! taskIndex a"
  show ?thesis
  proof (cases "currentDayHours a + estimatedHours ?t \<le> cap")
    case True
    with nw b have "schedule b = schedule a" "currentDate b = currentDate a"
      by (auto simp: loop_body_def Let_def split: sum.splits)
    with a nw show ?thesis by (simp add: weekdays_only_def)
  next
    case nf: False
    show ?thesis
    proof (cases "currentDayTasks a = []")
      case True
      with nw nf b have "schedule b = schedule a" "currentDayTasks b = []"
        by (auto simp: loop_body_def Let_def)
      with a show ?thesis by (simp add: weekdays_only_def)
    next
      case False
      with nw nf b obtain entry where e: "day_entry a = Inr entry"
        and b': "schedule b = schedule a @ [entry]" "currentDayTasks b = []"
        by (auto simp: loop_body_def Let_def split: sum.splits)
      from day_entry_weekday [OF e nw] a b' show ?thesis by (simp add: weekdays_only_def)
    qed
  qed
qed

lemma no_weekend_dates_utc:
  assumes run: "createSchedule (fixed_tz 0) agent ts cap start True = Some (Inr r)"
    and d: "d \<in> set (dailySchedule r)"
  shows "\<not> date_on_weekend (date d)"
proof -
  from run obtain s sched where
    loop: "schedule_loop (fixed_tz 0) ts cap True (init_state start) = Some (Inr s)"
    and fl: "final_flush s = Inr sched"
    and r: "r = \<lparr>dailySchedule = sched, summary = make_summary ts (totalScheduledHours s) sched\<rparr>"
    by (rule createSchedule_Inr)
  have "weekdays_only s \<and> length ts \<le> taskIndex s"
  proof (rule schedule_loop_rule [OF loop])
    show "weekdays_only (init_state start)" by (simp add: weekdays_only_def init_state_def)
  next
    fix a b
    assume "weekdays_only a" "loop_body (fixed_tz 0) ts cap True a = Inr b"
    then show "weekdays_only b" by (rule weekdays_only_step)
  qed
  then have s: "weekdays_only s" ..
  have "\<forall>d \<in> set sched. \<not> date_on_weekend (date d)"
  proof (cases "currentDayTasks s = []")
    case True
    with fl s show ?thesis by (simp add: final_flush_def weekdays_only_def)
  next
    case False
    with fl obtain entry where e: "day_entry s = Inr entry" and sc: "sched = schedule s @ [entry]"
      by (auto simp: final_flush_def split: sum.splits)
    from s False have "\<not> isWeekend (fixed_tz 0) (currentDate s)" by (simp add: weekdays_only_def)
    from day_entry_weekday [OF e this] s show ?thesis by (simp add: sc weekdays_only_def)
  qed
  with r d show ?thesis by simp
qed

subsection \<open>Termination when every task fits a day\<close>

text \<open>
  When no task is longer than the capacity and the local offset from UTC is constant,
  every pass through the body lowers the measure, so the loop ends: the step returns a
  result or throws.
\<close>

lemma WeekDay_next: "WeekDay (x + msPerDay) = (WeekDay x + 1) mod 7"
  by (simp add: WeekDay_def Day_def msPerDay_def algebra_simps mod_simps)

lemma isWeekend_fixed_tz:
  "isWeekend (fixed_tz c) d \<longleftrightarrow> (\<exists>t. d = Some t \<and> (WeekDay (t + c) = 0 \<or> WeekDay (t + c) = 6))"
  by (cases d) (simp_all add: isWeekend_def getDay_def LocalTime_def fixed_tz_def)

lemma days_to_weekday_weekend:
  assumes "ex" and "isWeekend (fixed_tz c) d"
  shows "days_to_weekday c ex (addDays (fixed_tz c) d 1) < days_to_weekday c ex d"
proof -
  from assms(2) obtain t where d: "d = Some t" and w: "WeekDay (t + c) = 0 \<or> WeekDay (t + c) = 6"
    by (auto simp: isWeekend_fixed_tz)
  have n: "WeekDay (t + msPerDay + c) = (WeekDay (t + c) + 1) mod 7"
    using WeekDay_next [of "t + c"] by (simp add: add.commute add.left_commute)
  have a: "addDays (fixed_tz c) (Some t) 1 = TimeClip (t + msPerDay)"
    by (simp add: addDays_def fixed_tz_def LocalTime_def UTC_def)
  from w show ?thesis
  proof
    assume "WeekDay (t + c) = 0"
    with n assms(1) show ?thesis
      by (simp add: a d days_to_weekday_def TimeClip_def)
  next
    assume "WeekDay (t + c) = 6"
    with n assms(1) show ?thesis
      by (simp add: a d days_to_weekday_def TimeClip_def)
  qed
qed

lemma days_to_weekday_le: "days_to_weekday c ex d \<le> 2"
  by (simp add: days_to_weekday_def split: option.splits)

lemma days_to_weekday_0:
  "\<not> (ex \<and> isWeekend (fixed_tz c) d) \<Longrightarrow> days_to_weekday c ex d = 0"
  by (auto simp: days_to_weekday_def isWeekend_fixed_tz split: option.splits)

lemma loop_measure_step:
  assumes fit: "\<forall>t \<in> set ts. estimatedHours t \<le> cap"
    and lt: "taskIndex a < length ts"
    and b: "loop_body (fixed_tz c) ts cap ex a = Inr b"
  shows "loop_measure c ts cap ex b < loop_measure c ts cap ex a"
proof -
  from fit lt have est: "estimatedHours (ts ! taskIndex a) \<le> cap" by simp
  show ?thesis
  proof (cases "ex \<and> isWeekend (fixed_tz c) (currentDate a)")
    case True
    then have dec: "days_to_weekday c ex (addDays (fixed_tz c) (currentDate a) 1)
                      < days_to_weekday c ex (currentDate a)"
      by (simp add: days_to_weekday_weekend)
    show ?thesis
    proof (cases "currentDayTasks a = []")
      case True
      with \<open>ex \<and> isWeekend (fixed_tz c) (currentDate a)\<close> b
      have "b = a\<lparr>currentDate := addDays (fixed_tz c) (currentDate a) 1\<rparr>"
        by (simp add: loop_body_def)
      with dec show ?thesis by (simp add: loop_measure_def fits_today_def)
    next
      case False
      with True b have b': "taskIndex b = taskIndex a" "currentDayHours b = 0"
        "currentDate b = addDays (fixed_tz c) (currentDate a) 1"
        by (auto simp: loop_body_def split: sum.splits)
      with est have "fits_today ts cap b" by (simp add: fits_today_def)
      with dec b' show ?thesis by (simp add: loop_measure_def)
    qed
  next
    case nw: False
    then have z: "days_to_weekday c ex (currentDate a) = 0" by (rule days_to_weekday_0)
    show ?thesis
    proof (cases "fits_today ts cap a")
      case True
      with nw b have b': "taskIndex b = Suc (taskIndex a)"
        by (auto simp: loop_body_def Let_def fits_today_def split: sum.splits)
      have "loop_measure c ts cap ex b \<le> (length ts - Suc (taskIndex a)) * 6 + 3 + 2"
        unfolding loop_measure_def b'
        using days_to_weekday_le [of c ex "currentDate b"] by simp
      also have "\<dots> < (length ts - taskIndex a) * 6" using lt by simp
      also have "\<dots> \<le> loop_measure c ts cap ex a" by (simp add: loop_measure_def)
      finally show ?thesis .
    next
      case False
      with nw b have b': "taskIndex b = taskIndex a" "currentDayHours b = 0"
        by (auto simp: loop_body_def Let_def fits_today_def split: sum.splits if_splits)
      with est have "fits_today ts cap b" by (simp add: fits_today_def)
      with False z b' days_to_weekday_le [of c ex "currentDate b"] show ?thesis
        by (simp add: loop_measure_def)
    qed
  qed
qed

lemma schedule_loop_terminates:
  assumes fit: "\<forall>t \<in> set ts. estimatedHours t \<le> cap"
  shows "\<exists>y. schedule_loop (fixed_tz c) ts cap ex s = Some y"
proof (induction "loop_measure c ts cap ex s" arbitrary: s rule: less_induct)
  case less
  show ?case
  proof (cases "taskIndex s < length ts")
    case False
    then show ?thesis by (subst schedule_loop.simps) simp
  next
    case True
    show ?thesis
    proof (cases "loop_body (fixed_tz c) ts cap ex s")
      case (Inl e)
      with True show ?thesis by (subst schedule_loop.simps) simp
    next
      case (Inr b)
      from loop_measure_step [OF fit True Inr]
      have "\<exists>y. schedule_loop (fixed_tz c) ts cap ex b = Some y" by (rule less)
      with True Inr show ?thesis by (subst schedule_loop.simps) simp
    qed
  qed
qed

lemma fitting_tasks_terminate:
  assumes "\<forall>t \<in> set ts. estimatedHours t \<le> cap"
  shows "\<exists>y. createSchedule (fixed_tz c) agent ts cap start ex = Some y"
proof -
  from schedule_loop_terminates [OF assms] obtain y where
    "schedule_loop (fixed_tz c) ts cap ex (init_state start) = Some y" by blast
  then show ?thesis
    by (simp add: createSchedule_def split: sum.splits)
qed

section \<open>The sample run\<close>

lemma sample_run:
  "createSchedule (fixed_tz 0) True sample_tasks 8 (Some 1705276800000) True =
     Some (Inr sample_result)"
  by code_simp


section \<open>The claims\<close>

subsection \<open>Capacity\<close>



subsection \<open>Completeness\<close>

text \<open>
  Claim C4. Whenever the scheduler returns, the multiset of task ids over all days'
  entries is the multiset of the input task ids; when the input ids are pairwise
  distinct, each of them appears exactly once.
\<close>

theorem completeness:
  assumes "createSchedule tz agent ts workingHoursPerDay startDate excludeWeekends = Some (Inr r)"
  shows "mset (assigned_ids (dailySchedule r)) = mset (map task_id ts) \<and>
         (distinct (map task_id ts) \<longrightarrow>
            (\<forall>t \<in> set ts. count (mset (assigned_ids (dailySchedule r))) (task_id t) = 1))"
proof -
  have m: "mset (assigned_ids (dailySchedule r)) = mset (map task_id ts)"
    by (simp add: assigned_ids_result [OF assms])
  have "distinct (map task_id ts) \<longrightarrow>
           (\<forall>t \<in> set ts. count (mset (assigned_ids (dailySchedule r))) (task_id t) = 1)"
    unfolding m by (auto simp: distinct_count_atmost_1)
  with m show ?thesis by simp
qed

theorem completeness_witness:
  "createSchedule (fixed_tz 0) True sample_tasks 8 (Some 1705276800000) True =
     Some (Inr sample_result)
   \<and> distinct (map task_id sample_tasks)
   \<and> mset (assigned_ids (dailySchedule sample_result)) = mset [''a'', ''b'', ''c'']
   \<and> count (mset (assigned_ids (dailySchedule sample_result))) ''b'' = 1"
proof -
  have d: "distinct (map task_id sample_tasks)"
    by (simp add: sample_tasks_def mk_task_def)
  have ids: "map task_id sample_tasks = [''a'', ''b'', ''c'']"
    by (simp add: sample_tasks_def mk_task_def)
  have b: "mk_task ''b'' 2 \<in> set sample_tasks"
    by (simp add: sample_tasks_def)
  from completeness [OF sample_run] d b
  have "mset (assigned_ids (dailySchedule sample_result)) = mset (map task_id sample_tasks)"
    and "count (mset (assigned_ids (dailySchedule sample_result))) (task_id (mk_task ''b'' 2)) = 1"
    by blast+
  then show ?thesis using sample_run d by (simp add: ids mk_task_def)
qed

subsection \<open>Order\<close>

text \<open>
  Claim C7. The entries of a returned result, read day after day, name the input tasks
  in the order of the input: the loop takes the tasks by increasing index and never
  reorders them.
\<close>

theorem order_preservation:
  assumes "createSchedule tz agent ts workingHoursPerDay startDate excludeWeekends = Some (Inr r)"
  shows "assigned_ids (dailySchedule r) = map task_id ts"
  using assms by (rule assigned_ids_result)

theorem order_preservation_witness:
  "createSchedule (fixed_tz 0) True sample_tasks 8 (Some 1705276800000) True =
     Some (Inr sample_result)
   \<and> assigned_ids (dailySchedule sample_result) = [''a'', ''b'', ''c'']"
proof -
  have ids: "map task_id sample_tasks = [''a'', ''b'', ''c'']"
    by (simp add: sample_tasks_def mk_task_def)
  from order_preservation [OF sample_run] sample_run show ?thesis by (simp add: ids)
qed

subsection \<open>Times of day\<close>



subsection \<open>Termination\<close>

text \<open>
  Claim C1 says that the computation returns for every list of tasks with positive
  hours and positive capacity, a task longer than the capacity being placed alone on a
  day of its own. The code has no such rule. For one task of 10 hours and 8 working hours
  a day, starting on Monday 2024-01-15 in UTC, the loop never returns. Lemma
  \<open>oversized_never_returns\<close> shows that no result is produced whenever a task longer
  than the capacity follows tasks of non-negative hours; lemma \<open>fitting_tasks_terminate\<close>
  shows that the step does end when no task is longer than the capacity.
\<close>

theorem oversized_task_never_returns:
  "createSchedule (fixed_tz 0) True [mk_task ''big'' 10] 8 (Some 1705276800000) True = None"
  by (rule first_oversized_diverges) (simp_all add: mk_task_def)


subsection \<open>Non-positive capacity\<close>




subsection \<open>The empty task list\<close>

text \<open>
  Claim C5 says that for the empty task list the result has no days and a summary of
  four zeros. The code computes \<open>averageHoursPerDay\<close> as
  \<^verbatim>\<open>totalScheduledHours / schedule.length\<close> with no test for zero days, which is
  \<open>0 / 0\<close>: the three counts are 0 and the average is NaN.
\<close>

theorem empty_input_average:
  "createSchedule tz True [] workingHoursPerDay startDate excludeWeekends =
     Some (Inr \<lparr>dailySchedule = [],
                summary = \<lparr>totalTasks = 0, summary_totalHours = 0, totalDays = 0,
                           averageHoursPerDay = NaN\<rparr>\<rparr>)"
  using no_tasks_result [of tz workingHoursPerDay startDate excludeWeekends]
  by (simp add: empty_result_def)

subsection \<open>Weekends\<close>

text \<open>
  Claim C6 says that with \<open>excludeWeekends\<close> no emitted date is a Saturday or a Sunday.
  The code tests the week day of the local time (\<^verbatim>\<open>getDay\<close>) and emits the UTC date
  (\<^verbatim>\<open>toISOString\<close>). In a process five hours behind UTC, the start date 2024-01-13, a
  Saturday, is midnight UTC, which is Friday evening local time: the task is placed and
  the emitted date is 2024-01-13 (day number 19735). Lemma \<open>no_weekend_dates_utc\<close> shows
  that the claim holds when the local time is UTC.
\<close>

theorem weekend_date_emitted:
  "createSchedule (fixed_tz (- 18000000)) True [mk_task ''a'' 1] 8 (Some 1705104000000) True =
     Some (Inr \<lparr>dailySchedule =
                  [\<lparr>date = 19735,
                    tasks = [\<lparr>taskId = ''a'', startTime = ''09:00'', endTime = ''10:00'',
                              task_notes = (5, [])\<rparr>],
                    totalHours = 1\<rparr>],
                summary = \<lparr>totalTasks = 1, summary_totalHours = 1, totalDays = 1,
                           averageHoursPerDay = Num 1\<rparr>\<rparr>)
   \<and> date_on_weekend 19735 \<and> date_weekday 19735 = 6"
  by code_simp

subsection \<open>Emitted days\<close>

text \<open>
  Claim C8 says that no emitted day is empty and that the emitted dates increase
  strictly. The first part holds (lemma \<open>emitted_days_nonempty\<close>). The dates are UTC dates
  of time values that \<^verbatim>\<open>setDate\<close> moves by one local calendar day, which is 23 hours
  across the start of daylight saving time: in US Eastern time, starting on 2024-03-10
  with two tasks of 8 hours, both days carry the date 2024-03-10 (day number 19792).
  Lemma \<open>dates_increasing_fixed_tz\<close> shows that the dates increase strictly when the
  local offset from UTC is constant.
\<close>

theorem duplicate_date_emitted:
  "map_option (map_sum id (\<lambda>r. map date (dailySchedule r)))
     (createSchedule us_eastern_2024 True [mk_task ''a'' 8, mk_task ''b'' 8] 8
        (Some 1710028800000) False)
   = Some (Inr [19792, 19792])"
  by code_simp

subsection \<open>The summary\<close>

text \<open>
  Claim C9 says that the summary agrees with the days and the input and that the
  average is 0 when there are no days. Lemma \<open>summary_consistency\<close> shows all of it but
  the last part: with no days (the empty task list) the average is NaN, not 0.
\<close>

theorem zero_days_average:
  "map_option (map_sum id (\<lambda>r. (totalDays (summary r), averageHoursPerDay (summary r))))
     (createSchedule (fixed_tz 32400000) True [] 8 (Some 1705276800000) False)
   = Some (Inr (0, NaN))"
  by code_simp


end
